theory Spec2Isabelle
  imports Main
begin

section \<open>Data model\<close>

text \<open>
  JavaScript strings are sequences of UTF-16 code units; a code unit is modelled as a
  natural number, so Arabic text is covered as well as ASCII. \<open>str\<close> turns an ASCII
  literal into its code units.
\<close>

type_synonym jsstring = "nat list"

definition str :: "string \<Rightarrow> jsstring" where
  "str s = map of_char s"

text \<open>
  A primitive JSON value, used for the \<open>caption_id\<close> field, which the code only compares
  with \<open>===\<close>: strict equality of primitives is equality of the values, and \<open>null\<close> is
  strictly equal to \<open>null\<close>. An absent field (\<open>undefined\<close>) is \<open>None\<close> at the field.
\<close>

datatype jsval = JNull | JNum int | JStr jsstring

text \<open>
  A part is a JavaScript object whose fields appear and disappear: every field is optional,
  and the empty object \<open>{}\<close> is the part with no field. \<open>hadith\<close> is a nullable integer
  (\<open>None\<close> stands for both \<open>null\<close> and absent, which the code never tells apart). The
  fields \<open>book\<close> and \<open>chapter\<close> (here \<open>part_book\<close>, \<open>part_chapter\<close>; \<open>id\<close> is \<open>part_id\<close>)
  hold snapshots of other parts.
\<close>

datatype part = Part
  (part_id: "int option")
  (content: "jsstring option")
  (noTashkeelContent: "jsstring option")
  (hadith: "int option")
  (caption_id: "jsval option")
  (part_book: "part option")
  (part_chapter: "part option")
  (sourceName: "jsstring option")

definition emptyObj :: part where
  "emptyObj = Part None None None None None None None None"

fun set_content :: "part \<Rightarrow> jsstring \<Rightarrow> part" where
  "set_content (Part i c n h g b ch s) v = Part i (Some v) n h g b ch s"

fun set_noTashkeelContent :: "part \<Rightarrow> jsstring \<Rightarrow> part" where
  "set_noTashkeelContent (Part i c n h g b ch s) v = Part i c (Some v) h g b ch s"

fun set_book :: "part \<Rightarrow> part \<Rightarrow> part" where
  "set_book (Part i c n h g b ch s) v = Part i c n h g (Some v) ch s"

fun set_chapter :: "part \<Rightarrow> part \<Rightarrow> part" where
  "set_chapter (Part i c n h g b ch s) v = Part i c n h g b (Some v) s"

fun set_sourceName :: "part \<Rightarrow> jsstring \<Rightarrow> part" where
  "set_sourceName (Part i c n h g b ch s) v = Part i c n h g b ch (Some v)"

text \<open>
  The navigation tree (\<open>searchReference\<close>): a book is \<open>{page, name, chapters}\<close>, a chapter
  is \<open>{name, page}\<close>. The program holds a page as the string of decimal digits captured
  from the link of the node and never converts it. The field \<open>page\<close> is the number these
  digits denote: what \<open>parseInt\<close>, the comparison with the numeric query and the file
  name see. That the value is a String matters where it is compared with \<open>===\<close> (see
  \<open>strictEquals\<close>). The id of a part is a Number.
\<close>

record chapterNode =
  name :: jsstring
  page :: int

record bookNode = chapterNode +
  chapters :: "chapterNode list"

section \<open>Structural classification\<close>

text \<open>Truthiness of a nullable integer: \<open>null\<close>, \<open>undefined\<close> and \<open>0\<close> are falsy.\<close>

definition truthy :: "int option \<Rightarrow> bool" where
  "truthy v = (case v of None \<Rightarrow> False | Some n \<Rightarrow> n \<noteq> 0)"

text \<open>\<open>v < 0\<close> on a nullable integer: \<open>null\<close> converts to 0 and \<open>undefined\<close> to NaN.\<close>

definition ltZero :: "int option \<Rightarrow> bool" where
  "ltZero v = (case v of None \<Rightarrow> False | Some n \<Rightarrow> n < 0)"

text \<open>
  The test of \<open>initCategorization\<close> (reference-indexed strategy):
  \<^verbatim>\<open>if (!part.hadith || (part.hadith && part.hadith < 0))\<close> writes the part as a header.
\<close>

definition isHeader_indexed :: "part \<Rightarrow> bool" where
  "isHeader_indexed p = (\<not> truthy (hadith p) \<or> (truthy (hadith p) \<and> ltZero (hadith p)))"

text \<open>
  The test of the sequential processor (heuristic strategy):
  \<^verbatim>\<open>if (part.hadith)\<close> treats the part as a hadith.
\<close>

definition isHadith_sequential :: "part \<Rightarrow> bool" where
  "isHadith_sequential p = truthy (hadith p)"

section \<open>The reference index\<close>

text \<open>
  \<open>sortCallback\<close> orders two nodes descending by page. \<open>Array.prototype.sort\<close> is
  modelled as a stable insertion sort driven by the callback; on nodes with pairwise
  different pages every correct sort gives the same array.
\<close>

definition sortCallback :: "'a chapterNode_scheme \<Rightarrow> 'a chapterNode_scheme \<Rightarrow> int" where
  "sortCallback a b = (if page a < page b then 1 else if page a > page b then - 1 else 0)"

fun insertBy :: "('a \<Rightarrow> 'a \<Rightarrow> int) \<Rightarrow> 'a \<Rightarrow> 'a list \<Rightarrow> 'a list" where
  "insertBy cmp x [] = [x]"
| "insertBy cmp x (y # ys) = (if cmp x y \<le> 0 then x # y # ys else y # insertBy cmp x ys)"

fun arraySort :: "('a \<Rightarrow> 'a \<Rightarrow> int) \<Rightarrow> 'a list \<Rightarrow> 'a list" where
  "arraySort cmp [] = []"
| "arraySort cmp (x # xs) = insertBy cmp x (arraySort cmp xs)"

text \<open>
  The end of the navigation scrape: the books are sorted, then the chapters of each book.
\<close>

definition sortReference :: "bookNode list \<Rightarrow> bookNode list" where
  "sortReference searchReference =
     map (\<lambda>curBook. curBook\<lparr>chapters := arraySort sortCallback (chapters curBook)\<rparr>)
       (arraySort sortCallback searchReference)"

text \<open>
  \<open>getChapterBook\<close>. The query is \<open>parseInt(partNo)\<close>, with \<open>None\<close> for NaN; a comparison
  with NaN is false. The two nested \<open>Array.some\<close> calls are loops that stop at the first
  callback returning true; the callbacks assign the variables \<open>book\<close> and \<open>chapter\<close>, which
  are threaded through as the result record.
\<close>

record catInfo =
  info_book :: "bookNode option"
  info_chapter :: "chapterNode option"

definition gtNum :: "int \<Rightarrow> int option \<Rightarrow> bool" where
  "gtNum a b = (case b of None \<Rightarrow> False | Some n \<Rightarrow> n < a)"

fun someChapter :: "bookNode \<Rightarrow> int option \<Rightarrow> chapterNode list \<Rightarrow> catInfo \<Rightarrow> bool \<times> catInfo" where
  "someChapter curBook partNo [] r = (False, r)"
| "someChapter curBook partNo (curChapter # rest) r =
     (if gtNum (page curChapter) partNo then someChapter curBook partNo rest r
      else (True, \<lparr>info_book = Some curBook, info_chapter = Some curChapter\<rparr>))"

fun someBook :: "int option \<Rightarrow> bookNode list \<Rightarrow> catInfo \<Rightarrow> bool \<times> catInfo" where
  "someBook partNo [] r = (False, r)"
| "someBook partNo (curBook # rest) r =
     (if gtNum (page curBook) partNo then someBook partNo rest r
      else (case someChapter curBook partNo (chapters curBook) r of
              (found, r') \<Rightarrow> if found then (True, r') else someBook partNo rest r'))"

definition getChapterBook :: "bookNode list \<Rightarrow> int option \<Rightarrow> catInfo" where
  "getChapterBook books partNo =
     snd (someBook partNo books \<lparr>info_book = None, info_chapter = None\<rparr>)"

text \<open>The navigation tree of the concrete scenarios, as scraped (ascending).\<close>

definition exampleTree :: "bookNode list" where
  "exampleTree =
     [\<lparr>name = str ''B1'', page = 1,
        chapters = [\<lparr>name = str ''C2'', page = 2\<rparr>, \<lparr>name = str ''C10'', page = 10\<rparr>]\<rparr>,
      \<lparr>name = str ''B20'', page = 20,
        chapters = [\<lparr>name = str ''C21'', page = 21\<rparr>]\<rparr>]"

section \<open>Text normalization\<close>

text \<open>
  Both processors sanitize the content of a part with
  \<^verbatim>\<open>content.replace(/<(?:.|\n)*?>| &quot;|\d+ - /gm, ' ')\<close>.
  The global replace scans the text from the left; at each position the three alternatives
  are tried in order, a match is replaced by one space and the scan goes on behind it, and
  a code unit where nothing matches is copied.

  The first alternative, behind the opening \<open><\<close>: the lazy star stops at the first
  \<open>>\<close>; before it every code unit must be matched by \<open>.\<close> or \<open>\n\<close>, that is, be no line
  terminator other than the line feed. \<open>matchTagRest\<close> returns the text behind the match.
\<close>

definition isLineTerminator :: "nat \<Rightarrow> bool" where
  "isLineTerminator c = (c = 10 \<or> c = 13 \<or> c = 8232 \<or> c = 8233)"

definition isDigit :: "nat \<Rightarrow> bool" where
  "isDigit c = (of_char CHR ''0'' \<le> c \<and> c \<le> of_char CHR ''9'')"

fun matchTagRest :: "jsstring \<Rightarrow> jsstring option" where
  "matchTagRest [] = None"
| "matchTagRest (c # cs) =
     (if c = of_char CHR ''>'' then Some cs
      else if c = 10 \<or> \<not> isLineTerminator c then matchTagRest cs
      else None)"

definition matchTag :: "jsstring \<Rightarrow> jsstring option" where
  "matchTag s = (case s of [] \<Rightarrow> None
     | c # cs \<Rightarrow> if c = of_char CHR ''<'' then matchTagRest cs else None)"

text \<open>The second alternative is the literal of a space and the quote entity.\<close>

fun matchLiteral :: "jsstring \<Rightarrow> jsstring \<Rightarrow> jsstring option" where
  "matchLiteral [] s = Some s"
| "matchLiteral (l # ls) [] = None"
| "matchLiteral (l # ls) (c # cs) = (if l = c then matchLiteral ls cs else None)"

definition matchQuot :: "jsstring \<Rightarrow> jsstring option" where
  "matchQuot s = matchLiteral (str '' &quot;'') s"

text \<open>
  The third alternative: the greedy \<open>\d+\<close> takes every digit (giving one back would leave
  a digit where the space is required), then the literal of space, dash, space.
\<close>

definition matchNumbering :: "jsstring \<Rightarrow> jsstring option" where
  "matchNumbering s = (case s of [] \<Rightarrow> None
     | c # cs \<Rightarrow> if isDigit c then matchLiteral (str '' - '') (dropWhile isDigit cs) else None)"

definition matchAt :: "jsstring \<Rightarrow> jsstring option" where
  "matchAt s = (case matchTag s of Some r \<Rightarrow> Some r
     | None \<Rightarrow> (case matchQuot s of Some r \<Rightarrow> Some r
     | None \<Rightarrow> matchNumbering s))"

function sanitize :: "jsstring \<Rightarrow> jsstring" where
  "sanitize [] = []"
| "sanitize (c # cs) =
     (case matchAt (c # cs) of
        Some rest \<Rightarrow> of_char CHR '' '' # sanitize rest
      | None \<Rightarrow> c # sanitize cs)"
  by pat_completeness auto
termination
proof (relation "measure length")
  show "wf (measure length)" by simp
next
  fix c :: nat and cs rest :: jsstring
  assume m: "matchAt (c # cs) = Some rest"
  have tag: "length r < length s" if "matchTagRest s = Some r" for s r
    using that by (induction s) (auto split: if_splits)
  have lit: "length r \<le> length s" if "matchLiteral l s = Some r" for l s r
    using that by (induction l s rule: matchLiteral.induct) (auto split: if_splits)
  have "length rest \<le> length cs"
  proof (cases "matchTag (c # cs)")
    case (Some r)
    with m tag [of cs rest] show ?thesis
      by (auto simp: matchAt_def matchTag_def split: if_splits)
  next
    case None
    show ?thesis
    proof (cases "matchQuot (c # cs)")
      case (Some r)
      with m None lit [of "str ''&quot;''" cs rest] show ?thesis
        by (auto simp: matchAt_def matchQuot_def str_def split: if_splits)
    next
      case q: None
      with m None lit [of "str '' - ''" "dropWhile isDigit cs" rest]
        length_dropWhile_le [of isDigit cs] show ?thesis
        by (auto simp: matchAt_def matchNumbering_def split: if_splits)
    qed
  qed
  then show "(rest, c # cs) \<in> measure length" by simp
next
  fix c :: nat and cs :: jsstring
  show "(cs, c # cs) \<in> measure length" by simp
qed

text \<open>
  Texts in which no position starts a match: of any alternative, of the tag alternative,
  of the quote-entity or the numbering alternative.
\<close>

fun matchFree :: "jsstring \<Rightarrow> bool" where
  "matchFree [] = True"
| "matchFree (c # cs) = (matchAt (c # cs) = None \<and> matchFree cs)"

fun tagFree :: "jsstring \<Rightarrow> bool" where
  "tagFree [] = True"
| "tagFree (c # cs) = (matchTag (c # cs) = None \<and> tagFree cs)"

fun quotNumberingFree :: "jsstring \<Rightarrow> bool" where
  "quotNumberingFree [] = True"
| "quotNumberingFree (c # cs) =
     (matchQuot (c # cs) = None \<and> matchNumbering (c # cs) = None \<and> quotNumberingFree cs)"

text \<open>
  The second replace removes every code unit of the diacritics class. The class is built
  from the file \<open>tashkeel.txt\<close>, which is a parameter here: the list of the code units the
  class matches.
\<close>

definition removeTashkeel :: "nat list \<Rightarrow> jsstring \<Rightarrow> jsstring" where
  "removeTashkeel tashkeel s = filter (\<lambda>c. c \<notin> set tashkeel) s"

section \<open>Files, errors and loops\<close>

text \<open>
  A directory maps a file name (a part number) to the JSON object stored there: a file
  holds the \<open>JSON.stringify\<close> text of a part, and parsing it gives the part back, so a
  write stores a snapshot that later changes of the object do not reach. Reading a
  file that does not exist (or does not parse) throws; calling \<open>replace\<close> on an absent
  \<open>content\<close> throws a TypeError, as does reading a field of \<open>null\<close>. A thrown error ends
  the run; what was written before stays written, so the outcome of a step carries the
  state in both cases.
\<close>

datatype error = ReadError int | TypeError

type_synonym directory = "int \<Rightarrow> part option"

datatype 's outcome = Ok 's | Throw error 's

definition stateOf :: "'s outcome \<Rightarrow> 's" where
  "stateOf r = (case r of Ok s \<Rightarrow> s | Throw e s \<Rightarrow> s)"

definition completed :: "'s outcome \<Rightarrow> bool" where
  "completed r = (case r of Ok s \<Rightarrow> True | Throw e s \<Rightarrow> False)"

text \<open>\<open>readPart\<close> of the reference-indexed processor: read and parse, nothing more.\<close>

definition readPart :: "directory \<Rightarrow> int \<Rightarrow> error + part" where
  "readPart dir partNo = (case dir partNo of None \<Rightarrow> Inl (ReadError partNo) | Some p \<Rightarrow> Inr p)"

text \<open>
  \<open>processPart\<close> of the reference-indexed processor: read the part, sanitize its content
  and add the \<open>noTashkeelContent\<close> field.
\<close>

definition processPart :: "nat list \<Rightarrow> directory \<Rightarrow> int \<Rightarrow> error + part" where
  "processPart tashkeel dir partNo =
     (case readPart dir partNo of
        Inl e \<Rightarrow> Inl e
      | Inr partJson \<Rightarrow>
          (case content partJson of
             None \<Rightarrow> Inl TypeError
           | Some raw \<Rightarrow>
               Inr (set_noTashkeelContent (set_content partJson (sanitize raw))
                      (removeTashkeel tashkeel (sanitize raw)))))"

text \<open>
  \<open>readPart\<close> of the sequential processor does all of this in one function, with the same
  body.
\<close>

definition readPart_sequential :: "nat list \<Rightarrow> directory \<Rightarrow> int \<Rightarrow> error + part" where
  "readPart_sequential tashkeel dir partNo =
     (case dir partNo of
        None \<Rightarrow> Inl (ReadError partNo)
      | Some partJson \<Rightarrow>
          (case content partJson of
             None \<Rightarrow> Inl TypeError
           | Some raw \<Rightarrow>
               Inr (set_noTashkeelContent (set_content partJson (sanitize raw))
                      (removeTashkeel tashkeel (sanitize raw)))))"

text \<open>The loop \<^verbatim>\<open>for (; i <= files.length; i++)\<close> over a body that may throw.\<close>

function forLoop :: "(int \<Rightarrow> 's \<Rightarrow> 's outcome) \<Rightarrow> int \<Rightarrow> int \<Rightarrow> 's \<Rightarrow> 's outcome" where
  "forLoop body i n s =
     (if i \<le> n then
        (case body i s of
           Ok s' \<Rightarrow> forLoop body (i + 1) n s'
         | Throw e s' \<Rightarrow> Throw e s')
      else Ok s)"
  by pat_completeness auto
termination
  by (relation "measure (\<lambda>(body, i, n, s). nat (n + 1 - i))") auto

declare forLoop.simps [simp del]

section \<open>The reference-indexed processor\<close>

text \<open>
  The state of \<open>initCategorization\<close> is the output directory; the list \<open>writes\<close> records
  every \<open>writeFileSync\<close> in order.
\<close>

record outState =
  out :: directory
  writes :: "(int \<times> part) list"

definition writeFile :: "int \<Rightarrow> part \<Rightarrow> outState \<Rightarrow> outState" where
  "writeFile i p s = s\<lparr>out := (out s)(i \<mapsto> p), writes := writes s @ [(i, p)]\<rparr>"

text \<open>
  Strict equality \<open>===\<close> holds only between values of one type, and then compares the
  values. In \<^verbatim>\<open>partCatInfo.chapter.page === part.id\<close> the left side is the String captured
  by \<^verbatim>\<open>chapter.href.match(/(\d+)$/)[1]\<close>; the right side is a Number, or \<open>undefined\<close> when
  the part has no id.
\<close>

datatype jstype = TString | TNumber | TUndefined

definition typeofId :: "int option \<Rightarrow> jstype" where
  "typeofId v = (case v of None \<Rightarrow> TUndefined | Some n \<Rightarrow> TNumber)"

definition strictEquals :: "jstype \<Rightarrow> int option \<Rightarrow> jstype \<Rightarrow> int option \<Rightarrow> bool" where
  "strictEquals ta a tb b = (ta = tb \<and> a = b)"

text \<open>
  The body of the loop of \<open>initCategorization\<close>. The header records of the book and the
  chapter are read back from the output directory.
\<close>

definition categorizePart ::
  "nat list \<Rightarrow> bookNode list \<Rightarrow> directory \<Rightarrow> int \<Rightarrow> outState \<Rightarrow> outState outcome" where
  "categorizePart tashkeel searchReference src i s =
     (case processPart tashkeel src i of
        Inl e \<Rightarrow> Throw e s
      | Inr part \<Rightarrow>
          if isHeader_indexed part then Ok (writeFile i part s)
          else
            (let partCatInfo = getChapterBook searchReference (part_id part) in
             case info_book partCatInfo of
               None \<Rightarrow> Throw TypeError s
             | Some b \<Rightarrow>
                 (case readPart (out s) (page b) of
                    Inl e \<Rightarrow> Throw e s
                  | Inr bookPart \<Rightarrow>
                      (let part1 = set_book part (set_sourceName bookPart (name b)) in
                       case info_chapter partCatInfo of
                         None \<Rightarrow> Throw TypeError s
                       | Some c \<Rightarrow>
                           if strictEquals TString (Some (page c))
                                (typeofId (part_id part)) (part_id part) then
                             (let s1 = writeFile i part1 s in
                              case readPart (out s1) (page c) of
                                Inl e \<Rightarrow> Throw e s1
                              | Inr chapterPart \<Rightarrow>
                                  Ok (writeFile i
                                        (set_chapter part1 (set_sourceName chapterPart (name c)))
                                        s1))
                           else
                             (case readPart (out s) (page c) of
                                Inl e \<Rightarrow> Throw e s
                              | Inr chapterPart \<Rightarrow>
                                  Ok (writeFile i
                                        (set_chapter part1 (set_sourceName chapterPart (name c)))
                                        s))))))"

definition initCategorization ::
  "nat list \<Rightarrow> bookNode list \<Rightarrow> directory \<Rightarrow> int \<Rightarrow> outState \<Rightarrow> outState outcome" where
  "initCategorization tashkeel searchReference src n s =
     forLoop (categorizePart tashkeel searchReference src) 1 n s"

section \<open>The sequential processor\<close>

text \<open>
  The variables of the \<open>readdir\<close> callback: the look-ahead cache \<open>nextPart\<close>, the current
  \<open>book\<close> and \<open>chapter\<close>, the tracked \<open>firstPart\<close>; \<open>written\<close> records every
  \<open>writeFileSync\<close> and \<open>console\<close> every line logged, in order.
\<close>

datatype logLine = LogBook "jsstring option" | LogChapter "jsstring option"

record seqState =
  nextPart :: part
  cur_book :: part
  cur_chapter :: part
  firstPart :: part
  written :: "(int \<times> part) list"
  console :: "logLine list"

definition initialState :: seqState where
  "initialState = \<lparr>nextPart = emptyObj, cur_book = emptyObj, cur_chapter = emptyObj,
     firstPart = emptyObj, written = [], console = []\<rparr>"

text \<open>
  The end of the loop body: \<^verbatim>\<open>chapter = firstPart.id ? firstPart : part\<close> and its log line.
\<close>

definition assignChapter :: "part \<Rightarrow> seqState \<Rightarrow> seqState" where
  "assignChapter part s =
     (let ch = (if truthy (part_id (firstPart s)) then firstPart s else part)
      in s\<lparr>cur_chapter := ch, console := console s @ [LogChapter (content ch)]\<rparr>)"

definition assignBook :: "part \<Rightarrow> seqState \<Rightarrow> seqState" where
  "assignBook part s =
     (let bk = (if truthy (part_id (firstPart s)) then firstPart s else part)
      in s\<lparr>cur_book := bk, console := console s @ [LogBook (content bk)]\<rparr>)"

text \<open>
  The first statement of the loop body: \<^verbatim>\<open>part = nextPart.id ? nextPart : readPart(i)\<close>.
\<close>

definition fetchPart :: "nat list \<Rightarrow> directory \<Rightarrow> int \<Rightarrow> seqState \<Rightarrow> error + part" where
  "fetchPart tashkeel src i s =
     (if truthy (part_id (nextPart s)) then Inr (nextPart s)
      else readPart_sequential tashkeel src i)"

text \<open>The body of the loop of the sequential processor.\<close>

definition processStep :: "nat list \<Rightarrow> directory \<Rightarrow> int \<Rightarrow> seqState \<Rightarrow> seqState outcome" where
  "processStep tashkeel src i s =
     (case fetchPart tashkeel src i s of
        Inl e \<Rightarrow> Throw e s
      | Inr part \<Rightarrow>
          (let s0 = s\<lparr>nextPart := emptyObj\<rparr> in
           if isHadith_sequential part then
             Ok (s0\<lparr>written := written s0 @
                       [(i, set_chapter (set_book part (cur_book s0)) (cur_chapter s0))],
                    firstPart := emptyObj\<rparr>)
           else
             (let s1 = s0\<lparr>written := written s0 @ [(i, part)]\<rparr> in
              case readPart_sequential tashkeel src (i + 1) of
                Inl e \<Rightarrow> Throw e s1
              | Inr nxt \<Rightarrow>
                  (let s2 = s1\<lparr>nextPart := nxt\<rparr> in
                   if \<not> truthy (hadith nxt) then
                     if caption_id nxt = caption_id part
                     then Ok (assignChapter part (s2\<lparr>firstPart := part\<rparr>))
                     else Ok (assignBook part s2)
                   else Ok (assignChapter part s2)))))"

definition processDirectory :: "nat list \<Rightarrow> directory \<Rightarrow> int \<Rightarrow> seqState outcome" where
  "processDirectory tashkeel src n = forLoop (processStep tashkeel src) 1 n initialState"

text \<open>Building a directory from the list of its parts, numbered from 1.\<close>

fun filesFrom :: "int \<Rightarrow> part list \<Rightarrow> directory" where
  "filesFrom i [] = (\<lambda>k. None)"
| "filesFrom i (p # ps) = (filesFrom (i + 1) ps)(i \<mapsto> p)"

text \<open>A part as scraped: id, content, hadith marker and caption id.\<close>

definition scraped :: "int \<Rightarrow> jsstring \<Rightarrow> int option \<Rightarrow> jsval option \<Rightarrow> part" where
  "scraped i c h g = Part (Some i) (Some c) None h g None None None"

text \<open>What reading a scraped part gives: the content sanitized, the diacritics-free copy added.\<close>

definition processed :: "nat list \<Rightarrow> int \<Rightarrow> jsstring \<Rightarrow> int option \<Rightarrow> jsval option \<Rightarrow> part" where
  "processed tashkeel i c h g =
     Part (Some i) (Some (sanitize c)) (Some (removeTashkeel tashkeel (sanitize c))) h g
       None None None"

text \<open>
  Test streams: three header parts of one group followed by a hadith; and the six-part
  stream whose headers all carry a null caption id.
\<close>

definition threePartGroup :: directory where
  "threePartGroup = filesFrom 1
     [scraped 1 (str ''part one'') None (Some (JStr (str ''G''))),
      scraped 2 (str ''part two'') None (Some (JStr (str ''G''))),
      scraped 3 (str ''part three'') None (Some (JStr (str ''G''))),
      scraped 4 (str ''text'') (Some 1) None]"

definition nullGroupStream :: directory where
  "nullGroupStream = filesFrom 1
     [scraped 1 (str ''h1'') None (Some JNull), scraped 2 (str ''h2'') None (Some JNull),
      scraped 3 (str ''t3'') (Some 5) None,
      scraped 4 (str ''h4'') None (Some JNull), scraped 5 (str ''h5'') None (Some JNull),
      scraped 6 (str ''t6'') (Some 1) None]"



section \<open>Unfolding the loop\<close>

lemma forLoop_step:
  "i \<le> n \<Longrightarrow> forLoop body i n s =
     (case body i s of Ok s' \<Rightarrow> forLoop body (i + 1) n s' | Throw e s' \<Rightarrow> Throw e s')"
  by (subst forLoop.simps) simp

lemma forLoop_Ok:
  "i \<le> n \<Longrightarrow> body i s = Ok s' \<Longrightarrow> forLoop body i n s = forLoop body (i + 1) n s'"
  by (subst forLoop.simps) simp

lemma forLoop_done: "n < i \<Longrightarrow> forLoop body i n s = Ok s"
  by (subst forLoop.simps) simp

lemmas run_defs = processDirectory_def forLoop_step forLoop_done initialState_def
  processStep_def fetchPart_def readPart_sequential_def assignChapter_def assignBook_def
  scraped_def processed_def emptyObj_def truthy_def isHadith_sequential_def removeTashkeel_def
  stateOf_def completed_def

lemmas match_defs = str_def matchAt_def matchTag_def matchQuot_def matchNumbering_def
  isDigit_def isLineTerminator_def

section \<open>Classification: properties\<close>

lemma isHeader_indexed_iff:
  "(\<not> isHeader_indexed p) = (\<exists>n. hadith p = Some n \<and> 0 < n)"
  by (cases "hadith p") (auto simp: isHeader_indexed_def truthy_def ltZero_def)

lemma isHadith_sequential_iff:
  "isHadith_sequential p = (\<exists>n. hadith p = Some n \<and> n \<noteq> 0)"
  by (cases "hadith p") (auto simp: isHadith_sequential_def truthy_def)

text \<open>
  Claim C1 (the code departs from it in the sequential processor). The claim: a part is
  content if and only if its \<open>hadith\<close> marker is present and strictly positive, and in both
  strategies a strictly negative marker makes the part a header, as a null marker does.
  The reference-indexed test does so (\<open>isHeader_indexed_iff\<close>). The sequential
  processor tests only the truthiness of the marker: a part whose marker is \<open>-1\<close> is taken
  as a hadith there, while the reference-indexed test takes the same part as a header.
\<close>

theorem negative_marker_sequential_is_hadith:
  assumes "hadith p = Some n" and "n < 0"
  shows "isHadith_sequential p \<and> isHeader_indexed p"
  using assms by (simp add: isHadith_sequential_def isHeader_indexed_def truthy_def ltZero_def)

theorem negative_marker_sequential_is_hadith_witness:
  "isHadith_sequential (Part (Some 7) (Some (str ''x'')) None (Some (- 1)) None None None None)
   \<and> isHeader_indexed (Part (Some 7) (Some (str ''x'')) None (Some (- 1)) None None None None)"
  using negative_marker_sequential_is_hadith
    [of "Part (Some 7) (Some (str ''x'')) None (Some (- 1)) None None None None" "- 1"]
  by simp

section \<open>The reference index: properties\<close>

lemma someChapter_find:
  "someChapter curBook partNo cs r =
     (case find (\<lambda>c. \<not> gtNum (page c) partNo) cs of
        None \<Rightarrow> (False, r)
      | Some c \<Rightarrow> (True, \<lparr>info_book = Some curBook, info_chapter = Some c\<rparr>))"
  by (induction cs) simp_all

lemma someBook_find:
  "someBook partNo bs r =
     (case find (\<lambda>b. \<not> gtNum (page b) partNo
                    \<and> find (\<lambda>c. \<not> gtNum (page c) partNo) (chapters b) \<noteq> None) bs of
        None \<Rightarrow> (False, r)
      | Some b \<Rightarrow> (True, \<lparr>info_book = Some b,
                          info_chapter = find (\<lambda>c. \<not> gtNum (page c) partNo) (chapters b)\<rparr>))"
  by (induction bs) (auto simp: someChapter_find split: option.splits)

lemma gtNum_Some: "(\<not> gtNum a (Some p)) = (a \<le> p)"
  by (auto simp: gtNum_def)

lemma getChapterBook_find:
  "getChapterBook books (Some p) =
     (case find (\<lambda>b. page b \<le> p \<and> find (\<lambda>c. page c \<le> p) (chapters b) \<noteq> None) books of
        None \<Rightarrow> \<lparr>info_book = None, info_chapter = None\<rparr>
      | Some b \<Rightarrow> \<lparr>info_book = Some b, info_chapter = find (\<lambda>c. page c \<le> p) (chapters b)\<rparr>)"
  by (simp add: getChapterBook_def someBook_find gtNum_Some split: option.splits)

lemma insertBy_last:
  "\<forall>y \<in> set ys. page x < page y \<Longrightarrow> insertBy sortCallback x ys = ys @ [x]"
  by (induction ys) (simp_all add: sortCallback_def)

lemma arraySort_ascending:
  "sorted_wrt (<) (map page xs) \<Longrightarrow> arraySort sortCallback xs = rev xs"
  by (induction xs) (simp_all add: insertBy_last)

lemma find_None_list_ex: "(find P xs = None) = (\<not> list_ex P xs)"
  by (induction xs) simp_all

lemma find_skip:
  "\<forall>x \<in> set xs. \<not> P x \<Longrightarrow> P y \<Longrightarrow> find P (xs @ y # ys) = Some y"
  by (induction xs) simp_all

text \<open>
  Claim C9. For every list of books and every query (NaN included), \<open>getChapterBook\<close>
  returns a result in which \<open>book\<close> and \<open>chapter\<close> are both null, or both set, and then the
  book is one of the books given and the chapter is one of that book's own chapters. The
  function is total: it returns on every input.
\<close>

theorem getChapterBook_both_or_neither:
  "(info_book (getChapterBook books partNo) = None
      \<and> info_chapter (getChapterBook books partNo) = None)
   \<or> (\<exists>b c. info_book (getChapterBook books partNo) = Some b
          \<and> info_chapter (getChapterBook books partNo) = Some c
          \<and> b \<in> set books \<and> c \<in> set (chapters b))"
  by (auto simp: getChapterBook_def someBook_find find_Some_iff split: option.splits)

text \<open>
  Claim C3, as stated, fails: with the books sorted descending as pages 20 and 1, the first
  book whose page is at most 20 is the book of page 20, its only chapter has page 21, and
  yet the lookup of 20 is not a failure: the scan goes on to the book of page 1 and
  returns it with its chapter of page 10.
\<close>

theorem getChapterBook_fallthrough_counterexample:
  "map page (sortReference exampleTree) = [20, 1] \<and>
   map page (chapters (hd (sortReference exampleTree))) = [21] \<and>
   map_option page (info_book (getChapterBook (sortReference exampleTree) (Some 20))) = Some 1 \<and>
   map_option page (info_chapter (getChapterBook (sortReference exampleTree) (Some 20))) = Some 10"
  by (simp add: exampleTree_def sortReference_def sortCallback_def getChapterBook_def gtNum_def)

text \<open>
  Claim C3, amended. The scan over the books stops at the first book, in the order given,
  whose page is at most the query and which has a chapter whose page is at most the
  query; the result is that book with the first such chapter of it. A book whose page is
  at most the query but which has no such chapter is passed over, and the scan goes on
  with the later books. The lookup fails, with book and chapter both null, exactly when
  no book has both.
\<close>

theorem getChapterBook_first_book_with_chapter:
  "getChapterBook books (Some p) =
     (case find (\<lambda>b. page b \<le> p \<and> find (\<lambda>c. page c \<le> p) (chapters b) \<noteq> None) books of
        None \<Rightarrow> \<lparr>info_book = None, info_chapter = None\<rparr>
      | Some b \<Rightarrow> \<lparr>info_book = Some b, info_chapter = find (\<lambda>c. page c \<le> p) (chapters b)\<rparr>)
   \<and> (info_book (getChapterBook books (Some p)) = None) =
       (\<not> list_ex (\<lambda>b. page b \<le> p \<and> list_ex (\<lambda>c. page c \<le> p) (chapters b)) books)"
proof
  show "getChapterBook books (Some p) =
     (case find (\<lambda>b. page b \<le> p \<and> find (\<lambda>c. page c \<le> p) (chapters b) \<noteq> None) books of
        None \<Rightarrow> \<lparr>info_book = None, info_chapter = None\<rparr>
      | Some b \<Rightarrow> \<lparr>info_book = Some b, info_chapter = find (\<lambda>c. page c \<le> p) (chapters b)\<rparr>)"
    by (rule getChapterBook_find)
next
  have "(info_book (getChapterBook books (Some p)) = None) =
        (find (\<lambda>b. page b \<le> p \<and> find (\<lambda>c. page c \<le> p) (chapters b) \<noteq> None) books = None)"
    by (simp add: getChapterBook_find split: option.splits)
  then show "(info_book (getChapterBook books (Some p)) = None) =
       (\<not> list_ex (\<lambda>b. page b \<le> p \<and> list_ex (\<lambda>c. page c \<le> p) (chapters b)) books)"
    by (simp add: find_None_list_ex)
qed

text \<open>
  Claim C2, as stated, fails: in the tree of the claim the book of page 1 covers the ids
  from 1 up to 20, but the lookup of 1, which lies before the first chapter of that book,
  returns no book at all.
\<close>

theorem getChapterBook_interval_counterexample:
  "map page exampleTree = [1, 20] \<and>
   getChapterBook (sortReference exampleTree) (Some 1) = \<lparr>info_book = None, info_chapter = None\<rparr>"
  by (simp add: exampleTree_def sortReference_def sortCallback_def getChapterBook_def gtNum_def)

text \<open>
  Claim C2, amended. Let the books have ascending pages and let the chapters of the book
  \<open>b\<close> have ascending pages. For every query \<open>p\<close> with \<open>page b \<le> p\<close>, below the page of
  the next book if there is one, and inside the half-open interval of the chapter \<open>c\<close> of
  \<open>b\<close> (\<open>page c \<le> p\<close>, below the page of the next chapter of \<open>b\<close> if there is one), the
  lookup in the sorted tree returns \<open>b\<close> (its chapters now sorted) and \<open>c\<close>. The queries
  from the page of a book up to the page of its first chapter are left out.
\<close>

theorem getChapterBook_interval:
  assumes books: "sorted_wrt (<) (map page books)" "books = pre @ b # post"
    and chaps: "sorted_wrt (<) (map page (chapters b))" "chapters b = cpre @ c # cpost"
    and inBook: "page b \<le> p" "case post of [] \<Rightarrow> True | nextBook # _ \<Rightarrow> p < page nextBook"
    and inChapter: "page c \<le> p"
      "case cpost of [] \<Rightarrow> True | nextChapter # _ \<Rightarrow> p < page nextChapter"
  shows "getChapterBook (sortReference books) (Some p) =
           \<lparr>info_book = Some (b\<lparr>chapters := arraySort sortCallback (chapters b)\<rparr>),
            info_chapter = Some c\<rparr>"
proof -
  let ?sortCh =
    "\<lambda>curBook::bookNode. curBook\<lparr>chapters := arraySort sortCallback (chapters curBook)\<rparr>"
  have later: "\<forall>n \<in> set post. p < page n"
    using books inBook(2) by (cases post) (auto simp: sorted_wrt_append)
  have laterCh: "\<forall>n \<in> set cpost. p < page n"
    using chaps inChapter(2) by (cases cpost) (auto simp: sorted_wrt_append)
  have chs: "arraySort sortCallback (chapters b) = rev cpost @ c # rev cpre"
    using chaps by (simp add: arraySort_ascending)
  have fc: "find (\<lambda>c. page c \<le> p) (arraySort sortCallback (chapters b)) = Some c"
    unfolding chs using laterCh inChapter(1) by (intro find_skip) auto
  have bs: "sortReference books = map ?sortCh (rev post) @ ?sortCh b # map ?sortCh (rev pre)"
    using books by (simp add: sortReference_def arraySort_ascending)
  have "find (\<lambda>b. page b \<le> p \<and> find (\<lambda>c. page c \<le> p) (chapters b) \<noteq> None)
          (sortReference books) = Some (?sortCh b)"
    unfolding bs using later inBook(1) fc by (intro find_skip) auto
  then show ?thesis
    by (simp add: getChapterBook_find fc)
qed

text \<open>
  The concrete scenario of claim C2: in the tree of the claim the query 15 resolves to the
  book of page 1 and the chapter of page 10.
\<close>

theorem getChapterBook_interval_witness:
  "getChapterBook (sortReference exampleTree) (Some 15) =
     \<lparr>info_book = Some \<lparr>name = str ''B1'', page = 1,
        chapters = [\<lparr>name = str ''C10'', page = 10\<rparr>, \<lparr>name = str ''C2'', page = 2\<rparr>]\<rparr>,
      info_chapter = Some \<lparr>name = str ''C10'', page = 10\<rparr>\<rparr>"
  using getChapterBook_interval [of exampleTree "[]" "hd exampleTree" "tl exampleTree"
      "[\<lparr>name = str ''C2'', page = 2\<rparr>]" "\<lparr>name = str ''C10'', page = 10\<rparr>" "[]" 15]
  by (simp add: exampleTree_def sortCallback_def)

section \<open>Text normalization: properties\<close>

lemma matchTagRest_length: "matchTagRest s = Some r \<Longrightarrow> length r < length s"
  by (induction s) (auto split: if_splits)

lemma matchLiteral_length: "matchLiteral l s = Some r \<Longrightarrow> length r + length l = length s"
  by (induction l s rule: matchLiteral.induct) (auto split: if_splits)

lemma matchTag_length: "matchTag s = Some r \<Longrightarrow> length r + 2 \<le> length s"
  by (auto simp: matchTag_def split: list.splits if_splits dest!: matchTagRest_length)

lemma matchQuot_length: "matchQuot s = Some r \<Longrightarrow> length r + 7 = length s"
  by (auto simp: matchQuot_def str_def dest!: matchLiteral_length)

lemma matchNumbering_length: "matchNumbering s = Some r \<Longrightarrow> length r + 4 \<le> length s"
proof -
  assume m: "matchNumbering s = Some r"
  then obtain c cs where s: "s = c # cs"
    and l: "matchLiteral (str '' - '') (dropWhile isDigit cs) = Some r"
    by (auto simp: matchNumbering_def split: list.splits if_splits)
  from matchLiteral_length [OF l] have "length r + 3 = length (dropWhile isDigit cs)"
    by (simp add: str_def)
  with length_dropWhile_le [of isDigit cs] show ?thesis
    by (simp add: s)
qed

lemma matchAt_length: "matchAt s = Some r \<Longrightarrow> length r + 2 \<le> length s"
  by (auto simp: matchAt_def split: option.splits
      dest: matchTag_length matchQuot_length matchNumbering_length)

lemma sanitize_matchFree: "matchFree y \<Longrightarrow> sanitize y = y"
  by (induction y) simp_all

lemma sanitize_length_le: "length (sanitize y) \<le> length y"
proof (induction y rule: sanitize.induct)
  case 1
  show ?case by simp
next
  case (2 c cs)
  show ?case
  proof (cases "matchAt (c # cs)")
    case None
    with 2 show ?thesis by simp
  next
    case (Some rest)
    with 2 matchAt_length [OF Some] show ?thesis by simp
  qed
qed

lemma sanitize_length_less: "\<not> matchFree y \<Longrightarrow> length (sanitize y) < length y"
proof (induction y)
  case Nil
  then show ?case by simp
next
  case (Cons c cs)
  show ?case
  proof (cases "matchAt (c # cs)")
    case None
    with Cons show ?thesis by simp
  next
    case (Some rest)
    with matchAt_length [OF Some] sanitize_length_le [of rest] show ?thesis by simp
  qed
qed

lemma sanitize_fixpoint_iff: "(sanitize y = y) = matchFree y"
  using sanitize_matchFree [of y] sanitize_length_less [of y] by fastforce

lemma matchFree_iff: "matchFree y = (tagFree y \<and> quotNumberingFree y)"
  by (induction y) (auto simp: matchAt_def split: option.splits)

lemma matchTagRest_literal:
  "matchLiteral l s = Some rest \<Longrightarrow>
   \<forall>c \<in> set l. c \<noteq> of_char CHR ''>'' \<and> (c = 10 \<or> \<not> isLineTerminator c) \<Longrightarrow>
   matchTagRest s = matchTagRest rest"
  by (induction l s rule: matchLiteral.induct) (auto split: if_splits)

lemma matchTagRest_digits: "matchTagRest (dropWhile isDigit cs) = matchTagRest cs"
  by (induction cs) (auto simp: isDigit_def isLineTerminator_def)

lemma matchTagRest_behind_match:
  assumes m: "matchAt s = Some rest" and t: "matchTagRest s = None"
  shows "matchTagRest rest = None"
proof (cases "matchTag s")
  case (Some r)
  then show ?thesis
    using t by (auto simp: matchTag_def isLineTerminator_def split: list.splits if_splits)
next
  case None
  show ?thesis
  proof (cases "matchQuot s")
    case (Some r)
    with m None have "matchLiteral (str '' &quot;'') s = Some rest"
      by (simp add: matchAt_def matchQuot_def)
    from matchTagRest_literal [OF this] t show ?thesis
      by (simp add: str_def isLineTerminator_def)
  next
    case qn: None
    with m None have n: "matchNumbering s = Some rest"
      by (simp add: matchAt_def)
    then obtain d cs where s: "s = d # cs" and d: "isDigit d"
      and l: "matchLiteral (str '' - '') (dropWhile isDigit cs) = Some rest"
      by (auto simp: matchNumbering_def split: list.splits if_splits)
    from matchTagRest_literal [OF l]
    have "matchTagRest (dropWhile isDigit cs) = matchTagRest rest"
      by (simp add: str_def isLineTerminator_def)
    moreover have "matchTagRest s = matchTagRest cs"
      using d by (simp add: s isDigit_def isLineTerminator_def)
    ultimately show ?thesis
      using t by (simp add: matchTagRest_digits)
  qed
qed

lemma matchTagRest_sanitize: "matchTagRest cs = None \<Longrightarrow> matchTagRest (sanitize cs) = None"
proof (induction cs rule: sanitize.induct)
  case 1
  show ?case by simp
next
  case (2 c cs)
  show ?case
  proof (cases "matchAt (c # cs)")
    case None
    with 2 show ?thesis by (auto split: if_splits)
  next
    case (Some rest)
    from matchTagRest_behind_match [OF Some "2.prems"] have "matchTagRest rest = None" .
    with 2 Some show ?thesis by (simp add: isLineTerminator_def)
  qed
qed

lemma tagFree_sanitize: "tagFree (sanitize x)"
proof (induction x rule: sanitize.induct)
  case 1
  show ?case by simp
next
  case (2 c cs)
  show ?case
  proof (cases "matchAt (c # cs)")
    case None
    then have "matchTag (c # cs) = None"
      by (simp add: matchAt_def split: option.splits)
    then have "matchTag (c # sanitize cs) = None"
      by (auto simp: matchTag_def matchTagRest_sanitize split: if_splits)
    with 2 None show ?thesis by simp
  next
    case (Some rest)
    with 2 show ?thesis by (simp add: matchTag_def)
  qed
qed

lemma sanitize_twice_iff:
  "(sanitize (sanitize x) = sanitize x) = quotNumberingFree (sanitize x)"
  by (simp add: sanitize_fixpoint_iff matchFree_iff tagFree_sanitize)

text \<open>
  Claim C8, as stated, fails: the clean text of the example is not the text with three
  leading spaces and two spaces between the words.
\<close>

theorem sanitize_example_counterexample:
  "sanitize (str ''<b>3 - text &quot;here</b>'') \<noteq> str ''   text  here''"
  by (simp add: match_defs)

text \<open>
  Claim C8, amended. Sanitizing \<open><b>3 - text &quot;here</b>\<close> gives two leading spaces
  (one for the tag, one for the numbering prefix), \<open>text\<close>, one space (for the quote entity
  together with the space before it, which belongs to the match), \<open>here\<close>, and one
  trailing space (for the closing tag).
\<close>

theorem sanitize_example:
  "sanitize (str ''<b>3 - text &quot;here</b>'') = str ''  text here ''"
  by (simp add: match_defs)

text \<open>
  Claim C7, as stated, fails: the space that replaces a tag can complete a quote-entity
  token. The text \<open><b>&quot;\<close> is sanitized to a space followed by the entity, and
  sanitizing that once more removes the entity.
\<close>

theorem sanitize_idempotent_counterexample:
  "sanitize (sanitize (str ''<b>&quot;'')) \<noteq> sanitize (str ''<b>&quot;'')"
  by (simp add: match_defs)

text \<open>
  Claim C7, amended. Sanitizing never leaves a tag match behind, so a second pass changes
  the clean text exactly when that text holds a quote-entity token or a numbering prefix
  (completed by the spaces of the first pass): sanitizing twice gives the same as
  sanitizing once if and only if no position of the clean text starts a match of the
  quote-entity or of the numbering alternative.
\<close>

theorem sanitize_idempotent_iff:
  "(sanitize (sanitize x) = sanitize x) = quotNumberingFree (sanitize x)"
  by (simp add: sanitize_fixpoint_iff matchFree_iff tagFree_sanitize)

theorem sanitize_idempotent_iff_witness:
  "sanitize (sanitize (str ''<b>bold</b> 12'')) = sanitize (str ''<b>bold</b> 12'')"
  using sanitize_idempotent_iff [of "str ''<b>bold</b> 12''"]
  by (simp add: match_defs)

section \<open>The reference-indexed processor: properties\<close>

lemma part_updates [simp]:
  "part_book (set_book p v) = Some v"
  "part_chapter (set_book p v) = part_chapter p"
  "part_chapter (set_chapter p v) = Some v"
  "part_book (set_chapter p v) = part_book p"
  "sourceName (set_sourceName p n) = Some n"
  by (cases p; simp)+

lemma strictEquals_page_id [simp]:
  "strictEquals TString (Some pg) (typeofId v) v = False"
  by (cases v) (simp_all add: strictEquals_def typeofId_def)

text \<open>
  Whatever the part and the tree, one step of the loop writes at most one record: the
  branch of the two writes is never entered.
\<close>

lemma categorizePart_writes_at_most_once:
  "\<exists>ws. writes (stateOf (categorizePart tashkeel searchReference src i s)) = writes s @ ws
        \<and> length ws \<le> 1"
  by (auto simp: categorizePart_def readPart_def writeFile_def stateOf_def Let_def
      split: sum.splits option.splits)



section \<open>The sequential processor: properties\<close>

lemma step_hadith:
  "fetchPart tashkeel src i s = Inr part \<Longrightarrow> isHadith_sequential part \<Longrightarrow>
   processStep tashkeel src i s =
     Ok (s\<lparr>nextPart := emptyObj,
           written := written s @ [(i, set_chapter (set_book part (cur_book s)) (cur_chapter s))],
           firstPart := emptyObj\<rparr>)"
  by (simp add: processStep_def)

lemma step_header_same_group:
  "fetchPart tashkeel src i s = Inr part \<Longrightarrow> \<not> isHadith_sequential part \<Longrightarrow>
   readPart_sequential tashkeel src (i + 1) = Inr nxt \<Longrightarrow> \<not> truthy (hadith nxt) \<Longrightarrow>
   caption_id nxt = caption_id part \<Longrightarrow>
   processStep tashkeel src i s =
     Ok (s\<lparr>nextPart := nxt, written := written s @ [(i, part)], firstPart := part,
           cur_chapter := part, console := console s @ [LogChapter (content part)]\<rparr>)"
  by (simp add: processStep_def assignChapter_def Let_def)

lemma step_header_new_group:
  "fetchPart tashkeel src i s = Inr part \<Longrightarrow> \<not> isHadith_sequential part \<Longrightarrow>
   readPart_sequential tashkeel src (i + 1) = Inr nxt \<Longrightarrow> \<not> truthy (hadith nxt) \<Longrightarrow>
   caption_id nxt \<noteq> caption_id part \<Longrightarrow>
   processStep tashkeel src i s =
     Ok (s\<lparr>nextPart := nxt, written := written s @ [(i, part)],
           cur_book := (if truthy (part_id (firstPart s)) then firstPart s else part),
           console := console s @
             [LogBook (content (if truthy (part_id (firstPart s)) then firstPart s else part))]\<rparr>)"
  by (simp add: processStep_def assignBook_def Let_def)

lemma step_header_before_hadith:
  "fetchPart tashkeel src i s = Inr part \<Longrightarrow> \<not> isHadith_sequential part \<Longrightarrow>
   readPart_sequential tashkeel src (i + 1) = Inr nxt \<Longrightarrow> truthy (hadith nxt) \<Longrightarrow>
   processStep tashkeel src i s =
     Ok (s\<lparr>nextPart := nxt, written := written s @ [(i, part)],
           cur_chapter := (if truthy (part_id (firstPart s)) then firstPart s else part),
           console := console s @
             [LogChapter (content (if truthy (part_id (firstPart s)) then firstPart s else part))]\<rparr>)"
  by (simp add: processStep_def assignChapter_def Let_def)

lemma fetchPart_either:
  "readPart_sequential tashkeel src i = Inr p \<Longrightarrow>
   nextPart s = p \<or> \<not> truthy (part_id (nextPart s)) \<Longrightarrow>
   fetchPart tashkeel src i s = Inr p"
  by (auto simp: fetchPart_def)

lemma forLoop_split:
  "forLoop body i m s = Ok s' \<Longrightarrow> i \<le> m + 1 \<Longrightarrow> m \<le> n \<Longrightarrow>
   forLoop body i n s = forLoop body (m + 1) n s'"
proof (induction body i m s rule: forLoop.induct)
  case (1 body i m s)
  show ?case
  proof (cases "i \<le> m")
    case True
    with "1.prems"(1) obtain s1 where b: "body i s = Ok s1"
      and rest: "forLoop body (i + 1) m s1 = Ok s'"
      by (subst (asm) forLoop.simps) (auto split: outcome.splits)
    have "forLoop body (i + 1) n s1 = forLoop body (m + 1) n s'"
      using "1.IH" [OF True b rest] True "1.prems"(3) by simp
    moreover have "forLoop body i n s = forLoop body (i + 1) n s1"
      using True "1.prems"(3) b by (intro forLoop_Ok) auto
    ultimately show ?thesis by simp
  next
    case False
    with "1.prems"(1) have "s' = s"
      by (subst (asm) forLoop.simps) simp
    moreover from False "1.prems"(2) have "i = m + 1" by simp
    ultimately show ?thesis by simp
  qed
qed

lemma book_chapter_hadith_run:
  assumes cache: "\<not> truthy (part_id (nextPart s))" and nofirst: "\<not> truthy (part_id (firstPart s))"
    and r1: "readPart_sequential tashkeel src i = Inr p1"
    and r2: "readPart_sequential tashkeel src (i + 1) = Inr p2"
    and r3: "readPart_sequential tashkeel src (i + 2) = Inr p3"
    and hdrs: "\<not> truthy (hadith p1)" "\<not> truthy (hadith p2)"
    and grp: "caption_id p2 \<noteq> caption_id p1"
    and cont: "truthy (hadith p3)"
  shows "forLoop (processStep tashkeel src) i (i + 2) s =
           Ok (s\<lparr>nextPart := emptyObj, cur_book := p1, cur_chapter := p2, firstPart := emptyObj,
                 written := written s @
                   [(i, p1), (i + 1, p2), (i + 2, set_chapter (set_book p3 p1) p2)],
                 console := console s @ [LogBook (content p1), LogChapter (content p2)]\<rparr>)"
proof -
  let ?B = "processStep tashkeel src"
  let ?s1 = "s\<lparr>nextPart := p2, written := written s @ [(i, p1)],
      cur_book := (if truthy (part_id (firstPart s)) then firstPart s else p1),
      console := console s @
        [LogBook (content (if truthy (part_id (firstPart s)) then firstPart s else p1))]\<rparr>"
  let ?s2 = "?s1\<lparr>nextPart := p3, written := written ?s1 @ [(i + 1, p2)],
      cur_chapter := (if truthy (part_id (firstPart ?s1)) then firstPart ?s1 else p2),
      console := console ?s1 @
        [LogChapter (content (if truthy (part_id (firstPart ?s1)) then firstPart ?s1 else p2))]\<rparr>"
  let ?s3 = "?s2\<lparr>nextPart := emptyObj,
      written := written ?s2 @
        [(i + 1 + 1, set_chapter (set_book p3 (cur_book ?s2)) (cur_chapter ?s2))],
      firstPart := emptyObj\<rparr>"
  have r3': "readPart_sequential tashkeel src (i + 1 + 1) = Inr p3"
    using r3 by (simp add: add.assoc)
  have h: "\<not> isHadith_sequential p1" "\<not> isHadith_sequential p2" "isHadith_sequential p3"
    using hdrs cont by (simp_all add: isHadith_sequential_def)
  have st1: "?B i s = Ok ?s1"
    by (rule step_header_new_group [OF fetchPart_either [OF r1] h(1) r2 hdrs(2) grp])
      (simp add: cache)
  have st2: "?B (i + 1) ?s1 = Ok ?s2"
    by (rule step_header_before_hadith [OF fetchPart_either [OF r2] h(2) r3' cont]) simp
  have st3: "?B (i + 1 + 1) ?s2 = Ok ?s3"
    by (rule step_hadith [OF fetchPart_either [OF r3'] h(3)]) simp
  have "forLoop ?B i (i + 2) s = forLoop ?B (i + 1) (i + 2) ?s1"
    by (rule forLoop_Ok) (simp, rule st1)
  also have "\<dots> = forLoop ?B (i + 1 + 1) (i + 2) ?s2"
    by (rule forLoop_Ok) (simp, rule st2)
  also have "\<dots> = forLoop ?B (i + 1 + 1 + 1) (i + 2) ?s3"
    by (rule forLoop_Ok) (simp, rule st3)
  also have "\<dots> = Ok ?s3"
    by (rule forLoop_done) simp
  finally show ?thesis
    using nofirst by (simp add: add.assoc)
qed

lemma readPart_sequential_scraped:
  "src k = Some (scraped i c h g) \<Longrightarrow>
   readPart_sequential tashkeel src k = Inr (processed tashkeel i c h g)"
  by (simp add: readPart_sequential_def scraped_def processed_def)

text \<open>
  Claim C10. In the sequential processor a hadith part met while the current book and
  chapter are still the empty objects they start as (no header has been resolved) is
  written all the same: the step does not throw, and the record written carries the empty
  object in both its \<open>book\<close> and its \<open>chapter\<close> field.
\<close>

theorem content_before_headers_emitted:
  assumes "cur_book s = emptyObj" and "cur_chapter s = emptyObj"
    and "fetchPart tashkeel src i s = Inr part"
    and "isHadith_sequential part"
  shows "processStep tashkeel src i s =
           Ok (s\<lparr>nextPart := emptyObj,
                 written := written s @ [(i, set_chapter (set_book part emptyObj) emptyObj)],
                 firstPart := emptyObj\<rparr>)"
  using assms by (simp add: processStep_def)

theorem content_before_headers_emitted_witness:
  "processDirectory [] (filesFrom 1 [scraped 1 (str ''c'') (Some 1) None]) 1 =
     Ok \<lparr>nextPart = emptyObj, cur_book = emptyObj, cur_chapter = emptyObj, firstPart = emptyObj,
         written = [(1, Part (Some 1) (Some (str ''c'')) (Some (str ''c'')) (Some 1) None
                          (Some emptyObj) (Some emptyObj) None)],
         console = []\<rparr>"
  using content_before_headers_emitted [of initialState "[]"
      "filesFrom 1 [scraped 1 (str ''c'') (Some 1) None]" 1
      "Part (Some 1) (Some (str ''c'')) (Some (str ''c'')) (Some 1) None None None None"]
  by (simp add: run_defs match_defs)

text \<open>
  Claim C4 (the code departs from it). The claim: after three consecutive header parts of
  one group, the hadith that follows is attached to the first part of the group. The
  processor overwrites \<open>firstPart\<close> at every continuation of a group, so what the hadith
  receives as its chapter is the second part of the three: running the loop over the
  four parts, from any state whose look-ahead cache is empty or holds the first of them,
  writes the hadith with the book unchanged and the second header as chapter.
\<close>

theorem three_part_group_attaches_second:
  assumes cache: "nextPart s = p1 \<or> \<not> truthy (part_id (nextPart s))"
    and r1: "readPart_sequential tashkeel src i = Inr p1"
    and r2: "readPart_sequential tashkeel src (i + 1) = Inr p2"
    and r3: "readPart_sequential tashkeel src (i + 2) = Inr p3"
    and r4: "readPart_sequential tashkeel src (i + 3) = Inr p4"
    and hdrs: "\<not> truthy (hadith p1)" "\<not> truthy (hadith p2)" "\<not> truthy (hadith p3)"
    and grp: "caption_id p2 = caption_id p1" "caption_id p3 = caption_id p2"
    and id2: "truthy (part_id p2)"
    and cont: "truthy (hadith p4)"
  shows "forLoop (processStep tashkeel src) i (i + 3) s =
           Ok (s\<lparr>nextPart := emptyObj, cur_chapter := p2, firstPart := emptyObj,
                 written := written s @
                   [(i, p1), (i + 1, p2), (i + 2, p3),
                    (i + 3, set_chapter (set_book p4 (cur_book s)) p2)],
                 console := console s @
                   [LogChapter (content p1), LogChapter (content p2), LogChapter (content p2)]\<rparr>)"
proof -
  let ?B = "processStep tashkeel src"
  let ?s1 = "s\<lparr>nextPart := p2, written := written s @ [(i, p1)], firstPart := p1,
      cur_chapter := p1, console := console s @ [LogChapter (content p1)]\<rparr>"
  let ?s2 = "?s1\<lparr>nextPart := p3, written := written ?s1 @ [(i + 1, p2)], firstPart := p2,
      cur_chapter := p2, console := console ?s1 @ [LogChapter (content p2)]\<rparr>"
  let ?s3 = "?s2\<lparr>nextPart := p4, written := written ?s2 @ [(i + 1 + 1, p3)],
      cur_chapter := (if truthy (part_id (firstPart ?s2)) then firstPart ?s2 else p3),
      console := console ?s2 @
        [LogChapter (content (if truthy (part_id (firstPart ?s2)) then firstPart ?s2 else p3))]\<rparr>"
  let ?s4 = "?s3\<lparr>nextPart := emptyObj,
      written := written ?s3 @
        [(i + 1 + 1 + 1, set_chapter (set_book p4 (cur_book ?s3)) (cur_chapter ?s3))],
      firstPart := emptyObj\<rparr>"
  have r3': "readPart_sequential tashkeel src (i + 1 + 1) = Inr p3"
    using r3 by (simp add: add.assoc)
  have r4': "readPart_sequential tashkeel src (i + 1 + 1 + 1) = Inr p4"
    using r4 by (simp add: add.assoc)
  have h: "\<not> isHadith_sequential p1" "\<not> isHadith_sequential p2" "\<not> isHadith_sequential p3"
    "isHadith_sequential p4"
    using hdrs cont by (simp_all add: isHadith_sequential_def)
  have st1: "?B i s = Ok ?s1"
    by (rule step_header_same_group [OF fetchPart_either [OF r1 cache] h(1) r2 hdrs(2) grp(1)])
  have st2: "?B (i + 1) ?s1 = Ok ?s2"
    by (rule step_header_same_group [OF fetchPart_either [OF r2] h(2) r3' hdrs(3) grp(2)]) simp
  have st3: "?B (i + 1 + 1) ?s2 = Ok ?s3"
    by (rule step_header_before_hadith [OF fetchPart_either [OF r3'] h(3) r4' cont]) simp
  have st4: "?B (i + 1 + 1 + 1) ?s3 = Ok ?s4"
    by (rule step_hadith [OF fetchPart_either [OF r4'] h(4)]) simp
  have "forLoop ?B i (i + 3) s = forLoop ?B (i + 1) (i + 3) ?s1"
    by (rule forLoop_Ok) (simp, rule st1)
  also have "\<dots> = forLoop ?B (i + 1 + 1) (i + 3) ?s2"
    by (rule forLoop_Ok) (simp, rule st2)
  also have "\<dots> = forLoop ?B (i + 1 + 1 + 1) (i + 3) ?s3"
    by (rule forLoop_Ok) (simp, rule st3)
  also have "\<dots> = forLoop ?B (i + 1 + 1 + 1 + 1) (i + 3) ?s4"
    by (rule forLoop_Ok) (simp, rule st4)
  also have "\<dots> = Ok ?s4"
    by (rule forLoop_done) simp
  finally show ?thesis
    using id2 by (simp add: add.assoc)
qed


text \<open>
  The failing input of claim C4: three header parts with the caption id \<open>G\<close>, then a
  hadith. The chapter written with the hadith (the fourth write) is part 2, not part 1.
\<close>

theorem three_part_group_attaches_second_witness:
  "completed (processDirectory [] threePartGroup 4) \<and>
   map fst (written (stateOf (processDirectory [] threePartGroup 4))) = [1, 2, 3, 4] \<and>
   part_chapter (snd (written (stateOf (processDirectory [] threePartGroup 4)) ! 3)) =
     Some (processed [] 2 (str ''part two'') None (Some (JStr (str ''G''))))"
  using three_part_group_attaches_second [where s = initialState and tashkeel = "[]"
      and src = threePartGroup and i = 1
      and ?p1.0 = "processed [] 1 (str ''part one'') None (Some (JStr (str ''G'')))"
      and ?p2.0 = "processed [] 2 (str ''part two'') None (Some (JStr (str ''G'')))"
      and ?p3.0 = "processed [] 3 (str ''part three'') None (Some (JStr (str ''G'')))"
      and ?p4.0 = "processed [] 4 (str ''text'') (Some 1) None"]
  by (simp add: threePartGroup_def processDirectory_def readPart_sequential_scraped
      initialState_def emptyObj_def truthy_def processed_def stateOf_def completed_def)

lemma group_chapter_hadith_run:
  assumes cache: "nextPart s = p1 \<or> \<not> truthy (part_id (nextPart s))"
    and r1: "readPart_sequential tashkeel src i = Inr p1"
    and r2: "readPart_sequential tashkeel src (i + 1) = Inr p2"
    and r3: "readPart_sequential tashkeel src (i + 2) = Inr p3"
    and hdrs: "\<not> truthy (hadith p1)" "\<not> truthy (hadith p2)"
    and grp: "caption_id p2 = caption_id p1"
    and id1: "truthy (part_id p1)"
    and cont: "truthy (hadith p3)"
  shows "forLoop (processStep tashkeel src) i (i + 2) s =
           Ok (s\<lparr>nextPart := emptyObj, cur_chapter := p1, firstPart := emptyObj,
                 written := written s @
                   [(i, p1), (i + 1, p2), (i + 2, set_chapter (set_book p3 (cur_book s)) p1)],
                 console := console s @ [LogChapter (content p1), LogChapter (content p1)]\<rparr>)"
proof -
  let ?B = "processStep tashkeel src"
  let ?s1 = "s\<lparr>nextPart := p2, written := written s @ [(i, p1)], firstPart := p1,
      cur_chapter := p1, console := console s @ [LogChapter (content p1)]\<rparr>"
  let ?s2 = "?s1\<lparr>nextPart := p3, written := written ?s1 @ [(i + 1, p2)],
      cur_chapter := (if truthy (part_id (firstPart ?s1)) then firstPart ?s1 else p2),
      console := console ?s1 @
        [LogChapter (content (if truthy (part_id (firstPart ?s1)) then firstPart ?s1 else p2))]\<rparr>"
  let ?s3 = "?s2\<lparr>nextPart := emptyObj,
      written := written ?s2 @
        [(i + 1 + 1, set_chapter (set_book p3 (cur_book ?s2)) (cur_chapter ?s2))],
      firstPart := emptyObj\<rparr>"
  have r3': "readPart_sequential tashkeel src (i + 1 + 1) = Inr p3"
    using r3 by (simp add: add.assoc)
  have h: "\<not> isHadith_sequential p1" "\<not> isHadith_sequential p2" "isHadith_sequential p3"
    using hdrs cont by (simp_all add: isHadith_sequential_def)
  have st1: "?B i s = Ok ?s1"
    by (rule step_header_same_group [OF fetchPart_either [OF r1 cache] h(1) r2 hdrs(2) grp])
  have st2: "?B (i + 1) ?s1 = Ok ?s2"
    by (rule step_header_before_hadith [OF fetchPart_either [OF r2] h(2) r3' cont]) simp
  have st3: "?B (i + 1 + 1) ?s2 = Ok ?s3"
    by (rule step_hadith [OF fetchPart_either [OF r3'] h(3)]) simp
  have "forLoop ?B i (i + 2) s = forLoop ?B (i + 1) (i + 2) ?s1"
    by (rule forLoop_Ok) (simp, rule st1)
  also have "\<dots> = forLoop ?B (i + 1 + 1) (i + 2) ?s2"
    by (rule forLoop_Ok) (simp, rule st2)
  also have "\<dots> = forLoop ?B (i + 1 + 1 + 1) (i + 2) ?s3"
    by (rule forLoop_Ok) (simp, rule st3)
  also have "\<dots> = Ok ?s3"
    by (rule forLoop_done) simp
  finally show ?thesis
    using id1 by (simp add: add.assoc)
qed

text \<open>
  With different caption ids on the adjacent headers the run gives what claim C5 expects:
  part 1 is the book and part 2 the chapter of part 3, part 4 the book and part 5 the
  chapter of part 6.
\<close>

lemma six_fragment_stream_distinct_caption_ids:
  assumes g12: "g1 \<noteq> g2" and g45: "g4 \<noteq> g5"
  shows "processDirectory tashkeel
           (filesFrom 1 [scraped 1 c1 None g1, scraped 2 c2 None g2, scraped 3 c3 (Some 5) g3,
                         scraped 4 c4 None g4, scraped 5 c5 None g5, scraped 6 c6 (Some 1) g6]) 6 =
         Ok \<lparr>nextPart = emptyObj,
             cur_book = processed tashkeel 4 c4 None g4,
             cur_chapter = processed tashkeel 5 c5 None g5,
             firstPart = emptyObj,
             written =
               [(1, processed tashkeel 1 c1 None g1),
                (2, processed tashkeel 2 c2 None g2),
                (3, set_chapter (set_book (processed tashkeel 3 c3 (Some 5) g3)
                       (processed tashkeel 1 c1 None g1)) (processed tashkeel 2 c2 None g2)),
                (4, processed tashkeel 4 c4 None g4),
                (5, processed tashkeel 5 c5 None g5),
                (6, set_chapter (set_book (processed tashkeel 6 c6 (Some 1) g6)
                       (processed tashkeel 4 c4 None g4)) (processed tashkeel 5 c5 None g5))],
             console =
               [LogBook (Some (sanitize c1)), LogChapter (Some (sanitize c2)),
                LogBook (Some (sanitize c4)), LogChapter (Some (sanitize c5))]\<rparr>"
proof -
  let ?src = "filesFrom 1 [scraped 1 c1 None g1, scraped 2 c2 None g2, scraped 3 c3 (Some 5) g3,
                         scraped 4 c4 None g4, scraped 5 c5 None g5, scraped 6 c6 (Some 1) g6]"
  let ?B = "processStep tashkeel ?src"
  let ?p1 = "processed tashkeel 1 c1 None g1" and ?p2 = "processed tashkeel 2 c2 None g2"
  let ?p3 = "processed tashkeel 3 c3 (Some 5) g3" and ?p4 = "processed tashkeel 4 c4 None g4"
  let ?p5 = "processed tashkeel 5 c5 None g5" and ?p6 = "processed tashkeel 6 c6 (Some 1) g6"
  let ?s3 = "initialState\<lparr>nextPart := emptyObj, cur_book := ?p1, cur_chapter := ?p2,
      firstPart := emptyObj,
      written := written initialState @
        [(1, ?p1), (1 + 1, ?p2), (1 + 2, set_chapter (set_book ?p3 ?p1) ?p2)],
      console := console initialState @ [LogBook (content ?p1), LogChapter (content ?p2)]\<rparr>"
  have r: "readPart_sequential tashkeel ?src 1 = Inr ?p1"
    "readPart_sequential tashkeel ?src (1 + 1) = Inr ?p2"
    "readPart_sequential tashkeel ?src (1 + 2) = Inr ?p3"
    "readPart_sequential tashkeel ?src 4 = Inr ?p4"
    "readPart_sequential tashkeel ?src (4 + 1) = Inr ?p5"
    "readPart_sequential tashkeel ?src (4 + 2) = Inr ?p6"
    by (simp_all add: readPart_sequential_scraped)
  have first: "forLoop ?B 1 (1 + 2) initialState = Ok ?s3"
    by (rule book_chapter_hadith_run [OF _ _ r(1) r(2) r(3)])
      (simp_all add: initialState_def emptyObj_def truthy_def processed_def g12 [symmetric])
  have second: "forLoop ?B 4 (4 + 2) ?s3 =
      Ok (?s3\<lparr>nextPart := emptyObj, cur_book := ?p4, cur_chapter := ?p5, firstPart := emptyObj,
                 written := written ?s3 @
                   [(4, ?p4), (4 + 1, ?p5), (4 + 2, set_chapter (set_book ?p6 ?p4) ?p5)],
                 console := console ?s3 @ [LogBook (content ?p4), LogChapter (content ?p5)]\<rparr>)"
    by (rule book_chapter_hadith_run [OF _ _ r(4) r(5) r(6)])
      (simp_all add: initialState_def emptyObj_def truthy_def processed_def g45 [symmetric])
  have "forLoop ?B 1 6 initialState = forLoop ?B (1 + 2 + 1) 6 ?s3"
    by (rule forLoop_split [OF first]) simp_all
  then have "forLoop ?B 1 6 initialState = forLoop ?B 4 (4 + 2) ?s3"
    by simp
  then show ?thesis
    unfolding processDirectory_def second
    by (simp add: initialState_def processed_def)
qed

text \<open>
  Claim C5 (the code departs from it). The claim: on the six-part stream header, header,
  hadith (marker 5), header, header, hadith (marker 1), where no header has a caption id,
  part 1 is the book and part 2 the chapter of part 3, and part 4 the book and part 5 the
  chapter of part 6, as the rule of the processor's own heading says (a part followed
  directly by a chapter is a book). The code compares the caption ids of two adjacent
  headers with \<open>===\<close> and no guard: two null ids, or two absent ones, are strictly equal,
  so the two headers are taken as parts of one group. Whenever parts 1 and 2 carry the
  same caption id \<open>g\<close> and parts 4 and 5 the same \<open>g'\<close>, null and absent included, no book
  is ever recognised: part 1 is logged twice as chapter, part 3 is written with the empty
  object as book and part 1 as chapter, and part 6 with the empty object as book and
  part 4 as chapter.
\<close>

theorem six_fragment_stream_equal_caption_ids:
  "processDirectory tashkeel
     (filesFrom 1 [scraped 1 c1 None g, scraped 2 c2 None g, scraped 3 c3 (Some 5) g3,
                   scraped 4 c4 None g', scraped 5 c5 None g', scraped 6 c6 (Some 1) g6]) 6 =
   Ok \<lparr>nextPart = emptyObj,
       cur_book = emptyObj,
       cur_chapter = processed tashkeel 4 c4 None g',
       firstPart = emptyObj,
       written =
         [(1, processed tashkeel 1 c1 None g),
          (2, processed tashkeel 2 c2 None g),
          (3, set_chapter (set_book (processed tashkeel 3 c3 (Some 5) g3) emptyObj)
                (processed tashkeel 1 c1 None g)),
          (4, processed tashkeel 4 c4 None g'),
          (5, processed tashkeel 5 c5 None g'),
          (6, set_chapter (set_book (processed tashkeel 6 c6 (Some 1) g6) emptyObj)
                (processed tashkeel 4 c4 None g'))],
       console =
         [LogChapter (Some (sanitize c1)), LogChapter (Some (sanitize c1)),
          LogChapter (Some (sanitize c4)), LogChapter (Some (sanitize c4))]\<rparr>"
proof -
  let ?src = "filesFrom 1 [scraped 1 c1 None g, scraped 2 c2 None g, scraped 3 c3 (Some 5) g3,
                   scraped 4 c4 None g', scraped 5 c5 None g', scraped 6 c6 (Some 1) g6]"
  let ?B = "processStep tashkeel ?src"
  let ?p1 = "processed tashkeel 1 c1 None g" and ?p2 = "processed tashkeel 2 c2 None g"
  let ?p3 = "processed tashkeel 3 c3 (Some 5) g3" and ?p4 = "processed tashkeel 4 c4 None g'"
  let ?p5 = "processed tashkeel 5 c5 None g'" and ?p6 = "processed tashkeel 6 c6 (Some 1) g6"
  let ?s3 = "initialState\<lparr>nextPart := emptyObj, cur_chapter := ?p1, firstPart := emptyObj,
      written := written initialState @
        [(1, ?p1), (1 + 1, ?p2),
         (1 + 2, set_chapter (set_book ?p3 (cur_book initialState)) ?p1)],
      console := console initialState @ [LogChapter (content ?p1), LogChapter (content ?p1)]\<rparr>"
  have r: "readPart_sequential tashkeel ?src 1 = Inr ?p1"
    "readPart_sequential tashkeel ?src (1 + 1) = Inr ?p2"
    "readPart_sequential tashkeel ?src (1 + 2) = Inr ?p3"
    "readPart_sequential tashkeel ?src 4 = Inr ?p4"
    "readPart_sequential tashkeel ?src (4 + 1) = Inr ?p5"
    "readPart_sequential tashkeel ?src (4 + 2) = Inr ?p6"
    by (simp_all add: readPart_sequential_scraped)
  have first: "forLoop ?B 1 (1 + 2) initialState = Ok ?s3"
    by (rule group_chapter_hadith_run [OF _ r(1) r(2) r(3)])
      (simp_all add: initialState_def emptyObj_def truthy_def processed_def)
  have second: "forLoop ?B 4 (4 + 2) ?s3 =
      Ok (?s3\<lparr>nextPart := emptyObj, cur_chapter := ?p4, firstPart := emptyObj,
                 written := written ?s3 @
                   [(4, ?p4), (4 + 1, ?p5), (4 + 2, set_chapter (set_book ?p6 (cur_book ?s3)) ?p4)],
                 console := console ?s3 @ [LogChapter (content ?p4), LogChapter (content ?p4)]\<rparr>)"
    by (rule group_chapter_hadith_run [OF _ r(4) r(5) r(6)])
      (simp_all add: initialState_def emptyObj_def truthy_def processed_def)
  have "forLoop ?B 1 6 initialState = forLoop ?B (1 + 2 + 1) 6 ?s3"
    by (rule forLoop_split [OF first]) simp_all
  then have "forLoop ?B 1 6 initialState = forLoop ?B 4 (4 + 2) ?s3"
    by simp
  then show ?thesis
    unfolding processDirectory_def second
    by (simp add: initialState_def processed_def)
qed

text \<open>
  The failing input of claim C5: the stream of the claim, every header with a null
  caption id. The run completes, and the third write carries the empty object as book
  and part 1, not part 2, as chapter.
\<close>

theorem six_fragment_stream_equal_caption_ids_witness:
  "completed (processDirectory [] nullGroupStream 6) \<and>
   part_book (snd (written (stateOf (processDirectory [] nullGroupStream 6)) ! 2)) = Some emptyObj \<and>
   part_chapter (snd (written (stateOf (processDirectory [] nullGroupStream 6)) ! 2)) =
     Some (processed [] 1 (str ''h1'') None (Some JNull))"
  using six_fragment_stream_equal_caption_ids [where tashkeel = "[]"
      and ?c1.0 = "str ''h1''" and ?c2.0 = "str ''h2''" and ?c3.0 = "str ''t3''"
      and ?c4.0 = "str ''h4''" and ?c5.0 = "str ''h5''" and ?c6.0 = "str ''t6''"
      and g = "Some JNull" and g' = "Some JNull" and ?g3.0 = None and ?g6.0 = None]
  by (simp add: nullGroupStream_def completed_def stateOf_def)

end
